theory Spec2Isabelle
  imports Main "HOL-Library.AList"
begin

section \<open>The tap2rekt session server: data model\<close>

text \<open>
  The repository holds several revisions of one socket.io server. Two of them differ in
  how they mutate the shared session state, and both are embedded here:
  \<^item> \<^verbatim>\<open>src/unnamed/part_000\<close>, lines 104-349: lobby, deposits, match, and the helper
    \<^verbatim>\<open>startMatchCountdown\<close>. Its handlers keep the names of the events they serve
    (\<open>join_lobby\<close>, \<open>deposit_made\<close>, \<open>join_match\<close>, \<open>tap\<close>, \<open>disconnecting\<close>).
  \<^item> \<^verbatim>\<open>src/server.ts\<close>: the same lobby and tap code with an older \<^verbatim>\<open>deposit_made\<close> and
    \<^verbatim>\<open>join_match\<close>; the handlers that differ carry the suffix \<open>_server\<close>.
  The match-only revisions (\<^verbatim>\<open>src/unnamed/part_000\<close>, lines 1-103, and
  \<^verbatim>\<open>src/unnamed/part_001\<close>) have the \<^verbatim>\<open>join_match\<close>, \<^verbatim>\<open>tap\<close> and \<^verbatim>\<open>disconnecting\<close>
  handlers of \<^verbatim>\<open>src/server.ts\<close>; they differ from it only in the payload of two
  broadcasts and in one timer delay.

  Modelling decisions:
  \<^item> A \<^verbatim>\<open>Record<string, X>\<close> whose values are enumerated (\<^verbatim>\<open>Object.keys\<close>,
    \<^verbatim>\<open>Object.values\<close>) is an association list in insertion order; an assignment to an
    existing key keeps its position. Keys that look like array indices, which the engine
    enumerates first, are not distinguished; no theorem below depends on the order.
    The two registries \<^verbatim>\<open>lobbies\<close> and \<^verbatim>\<open>matches\<close> are only looked up, so they are maps.
  \<^item> All these objects are plain \<^verbatim>\<open>{}\<close> literals, so a read \<^verbatim>\<open>obj[key]\<close> that finds no own
    key follows the prototype chain: for the twelve property names of \<^verbatim>\<open>Object.prototype\<close>
    (\<open>inherited\<close>) it yields a function, or \<^verbatim>\<open>Object.prototype\<close> itself, which is truthy and
    has none of the fields of a session or a player. \<open>js_get\<close> is this read, and every
    read whose key an event supplies goes through it: \<open>tap\<close>, \<open>deposit_made\<close> and the
    membership test of \<open>join_match\<close> branch on it as the code does, and the three join
    handlers throw on \<^verbatim>\<open>.players[wallet]\<close> of an inherited session before they write
    anything or join a room, which is the first test of their branches in \<open>step\<close>. The
    timers and the rooms only ever hold ids that are own keys or read \<^verbatim>\<open>undefined\<close>, so
    the callbacks and \<open>disconnecting\<close> read the registry as a map. That an assignment to
    the wallet \<^verbatim>\<open>__proto__\<close> sets the prototype of the roster instead of adding an entry is
    not modelled; no theorem below is about that wallet.
  \<^item> The connection ids are generated by the server and never name an inherited property;
    a connection is then never in a room whose name reads an inherited value.
  \<^item> The counters of the players are JavaScript numbers that only ever hold small naturals
    (\<^verbatim>\<open>0\<close>, then \<^verbatim>\<open>+= 1\<close>); they are of type \<open>nat\<close>. \<^verbatim>\<open>length - 1\<close> can be negative
    and is an \<open>int\<close>. The \<^verbatim>\<open>taps\<close> of an inherited value is \<^verbatim>\<open>undefined + 1\<close>, that is
    \<^verbatim>\<open>NaN\<close>, and stays \<^verbatim>\<open>NaN\<close>; a broadcast count is therefore a \<open>js_number\<close>.
  \<^item> The role is of the declared type \<^verbatim>\<open>'creator' | 'opponent'\<close>, so a registered player's
    role is never falsy.
  \<^item> \<^verbatim>\<open>setTimeout\<close> appends a pending timer together with its delay in milliseconds; the
    event \<open>Fire i\<close> runs the callback of the \<open>i\<close>-th pending timer. Every order in which
    the real timers can expire is an order of \<open>Fire\<close> events.
  \<^item> \<^verbatim>\<open>Date.now()\<close> is an input of each step.
  \<^item> A \<^verbatim>\<open>TypeError\<close> thrown in a callback is the error result of the step.
\<close>

datatype phase = Waiting | Countdown | Active | Finished

datatype lobby_phase = LobbyWaiting | Ready

datatype role = Creator | Opponent

record player =
  wallet :: string
  score :: nat
  taps :: nat

record match =
  match_id :: string
  players :: "(string \<times> player) list"
  state :: phase
  countdownTime :: nat
  gameTime :: nat
  winner :: "string option"

record lobby_player =
  lobby_wallet :: string
  role :: role
  deposited :: bool

record deposit_flags =
  creator :: bool
  opponent :: bool

record lobby =
  lobby_id :: string
  lobby_players :: "(string \<times> lobby_player) list"
  lobby_state :: lobby_phase
  deposits :: deposit_flags

text \<open>The payloads of \<^verbatim>\<open>io.to(room).emit(...)\<close>, one constructor per message shape.\<close>

datatype js_number = Num nat | NaN

datatype payload =
    LobbyUpdate nat lobby_phase
  | LobbyPlayerJoined nat string
  | DepositConfirmed role
  | MatchReady "string option"
  | PlayerJoined nat
  | CountdownStart nat nat
  | GameStart nat nat
  | TapUpdate string js_number
  | GameEnd "(string \<times> nat) list" string
  | PlayerLeft int

type_synonym emit = "string \<times> payload"

datatype timer = StartTimer string | CountdownTimer string | GameTimer string

text \<open>
  The state of the process: the two registries, the rooms of each connection, the pending
  timers, and the names of the inherited values on which a \<^verbatim>\<open>taps\<close> property has been
  written (its value is always \<^verbatim>\<open>NaN\<close>).
\<close>

record server =
  lobbies :: "string \<rightharpoonup> lobby"
  matches :: "string \<rightharpoonup> match"
  rooms :: "string \<Rightarrow> string list"
  timers :: "(nat \<times> timer) list"
  inherited_taps :: "string set"

datatype error = TypeError

datatype event =
    JoinLobby string string string role
  | DepositMade string string string
  | JoinMatch string string string
  | Tap string string string
  | Disconnecting string
  | Fire nat

text \<open>No lobby, no match, no pending timer; a connection starts in the room of its own id.\<close>

definition init :: server where
  "init = \<lparr>lobbies = Map.empty, matches = Map.empty, rooms = (\<lambda>sid. [sid]), timers = [],
            inherited_taps = {}\<rparr>"

definition phase_rank :: "phase \<Rightarrow> nat" where
  "phase_rank p = (case p of Waiting \<Rightarrow> 0 | Countdown \<Rightarrow> 1 | Active \<Rightarrow> 2 | Finished \<Rightarrow> 3)"

section \<open>Reading a property of a plain object\<close>

text \<open>The own property names of \<^verbatim>\<open>Object.prototype\<close>, which every \<^verbatim>\<open>{}\<close> inherits.\<close>

definition inherited :: "string \<Rightarrow> bool" where
  "inherited k = (k \<in> set [''constructor'', ''__proto__'', ''hasOwnProperty'', ''isPrototypeOf'',
      ''propertyIsEnumerable'', ''toLocaleString'', ''toString'', ''valueOf'',
      ''__defineGetter__'', ''__defineSetter__'', ''__lookupGetter__'', ''__lookupSetter__''])"

text \<open>
  \<^verbatim>\<open>obj[k]\<close>: the own value if \<open>k\<close> is an own key, else the inherited value if \<open>k\<close> names
  one, else \<^verbatim>\<open>undefined\<close>. Own and inherited values are truthy.
\<close>

datatype 'a slot = Own 'a | Inherited | Absent

definition js_get :: "(string \<rightharpoonup> 'a) \<Rightarrow> string \<Rightarrow> 'a slot" where
  "js_get obj k = (case obj k of Some v \<Rightarrow> Own v | None \<Rightarrow> if inherited k then Inherited else Absent)"

section \<open>Handlers shared by all revisions\<close>

text \<open>\<^verbatim>\<open>socket.join(room)\<close>: the rooms of a connection are a set kept in insertion order.\<close>

definition socket_join :: "string \<Rightarrow> string \<Rightarrow> server \<Rightarrow> server" where
  "socket_join sid room s =
     s\<lparr>rooms := (rooms s)(sid := (if room \<in> set (rooms s sid) then rooms s sid
                                     else rooms s sid @ [room]))\<rparr>"

definition new_lobby :: "string \<Rightarrow> lobby" where
  "new_lobby lobbyId =
     \<lparr>lobby_id = lobbyId, lobby_players = [], lobby_state = LobbyWaiting,
      deposits = \<lparr>creator = False, opponent = False\<rparr>\<rparr>"

definition new_match :: "string \<Rightarrow> nat \<Rightarrow> match" where
  "new_match matchId g =
     \<lparr>match_id = matchId, players = [], state = Waiting, countdownTime = 3, gameTime = g,
      winner = None\<rparr>"

definition fresh_player :: "string \<Rightarrow> player" where
  "fresh_player w = \<lparr>wallet = w, score = 0, taps = 0\<rparr>"

text \<open>\<^verbatim>\<open>join_lobby\<close> (server.ts 38-62, part_000 140-164).\<close>

definition join_lobby :: "string \<Rightarrow> string \<Rightarrow> string \<Rightarrow> role \<Rightarrow> server \<Rightarrow> server \<times> emit list" where
  "join_lobby sid lobbyId w r s =
     (let l0 = (case lobbies s lobbyId of None \<Rightarrow> new_lobby lobbyId | Some l \<Rightarrow> l);
          l1 = l0\<lparr>lobby_players :=
                    AList.update w \<lparr>lobby_wallet = w, role = r, deposited = False\<rparr> (lobby_players l0)\<rparr>;
          s1 = socket_join sid lobbyId (s\<lparr>lobbies := (lobbies s)(lobbyId \<mapsto> l1)\<rparr>);
          n = length (lobby_players l1)
      in (s1, [(lobbyId, LobbyUpdate n (lobby_state l1)), (lobbyId, LobbyPlayerJoined n w)]))"

text \<open>\<^verbatim>\<open>lobby.deposits[role] = true\<close>.\<close>

definition set_deposit :: "role \<Rightarrow> deposit_flags \<Rightarrow> deposit_flags" where
  "set_deposit r d = (case r of Creator \<Rightarrow> d\<lparr>creator := True\<rparr> | Opponent \<Rightarrow> d\<lparr>opponent := True\<rparr>)"

text \<open>
  \<^verbatim>\<open>tap\<close> (server.ts 146-156, part_000 73-83 and 264-274, part_001 85-95). The test
  \<^verbatim>\<open>match && match.state === "active" && match.players[wallet]\<close> reads three properties: an
  inherited \<^verbatim>\<open>match\<close> has no \<^verbatim>\<open>state\<close>, and an inherited \<^verbatim>\<open>match.players[wallet]\<close> passes
  the test, gets \<^verbatim>\<open>taps = undefined + 1\<close> written on it and is broadcast.
\<close>

definition tap :: "string \<Rightarrow> string \<Rightarrow> server \<Rightarrow> server \<times> emit list" where
  "tap matchId w s =
     (case js_get (matches s) matchId of
        Absent \<Rightarrow> (s, [])
      | Inherited \<Rightarrow> (s, [])
      | Own m \<Rightarrow>
          (if state m = Active then
             (case js_get (map_of (players m)) w of
                Absent \<Rightarrow> (s, [])
              | Inherited \<Rightarrow>
                  (s\<lparr>inherited_taps := insert w (inherited_taps s)\<rparr>, [(matchId, TapUpdate w NaN)])
              | Own p \<Rightarrow>
                  (let p1 = p\<lparr>taps := taps p + 1\<rparr>;
                       m1 = m\<lparr>players := AList.update w p1 (players m)\<rparr>
                   in (s\<lparr>matches := (matches s)(matchId \<mapsto> m1)\<rparr>,
                       [(matchId, TapUpdate w (Num (taps p1)))])))
           else (s, [])))"

text \<open>
  \<^verbatim>\<open>disconnecting\<close> (server.ts 158-167, part_000 85-94 and 276-285, part_001 97-106):
  a loop over \<^verbatim>\<open>socket.rooms\<close> that only emits.
\<close>

fun player_left :: "(string \<rightharpoonup> match) \<Rightarrow> string list \<Rightarrow> emit list" where
  "player_left ms [] = []"
| "player_left ms (matchId # rest) =
     (case ms matchId of
        None \<Rightarrow> player_left ms rest
      | Some m \<Rightarrow> (matchId, PlayerLeft (int (length (players m)) - 1)) # player_left ms rest)"

definition disconnecting :: "string \<Rightarrow> server \<Rightarrow> server \<times> emit list" where
  "disconnecting sid s = (s, player_left (matches s) (rooms s sid))"

text \<open>
  The end of a game (server.ts 131-135, part_000 58-62 and 330-335, part_001 70-74):
  \<^verbatim>\<open>scores\<close> maps the players to wallet and taps, and \<^verbatim>\<open>reduce\<close> without an initial value
  starts from the first element and throws on an empty array.
\<close>

definition scores :: "(string \<times> player) list \<Rightarrow> (string \<times> nat) list" where
  "scores ps = map (\<lambda>p. (wallet p, taps p)) (map snd ps)"

definition reduce_winner :: "(string \<times> nat) list \<Rightarrow> error + string" where
  "reduce_winner sc =
     (case sc of
        [] \<Rightarrow> Inl TypeError
      | x # xs \<Rightarrow> Inr (fst (foldl (\<lambda>a b. if snd a > snd b then a else b) x xs)))"

definition remove_timer :: "nat \<Rightarrow> (nat \<times> timer) list \<Rightarrow> (nat \<times> timer) list" where
  "remove_timer i ts = take i ts @ drop (Suc i) ts"

section \<open>The revision with startMatchCountdown (part_000, lines 104-349)\<close>

text \<open>\<^verbatim>\<open>startMatchCountdown\<close> (part_000 293-308); its two nested timers follow below.\<close>

definition startMatchCountdown :: "nat \<Rightarrow> string \<Rightarrow> server \<Rightarrow> server \<times> emit list" where
  "startMatchCountdown now matchId s =
     (case matches s matchId of
        None \<Rightarrow> (s, [])
      | Some m \<Rightarrow>
          (s\<lparr>matches := (matches s)(matchId \<mapsto> m\<lparr>state := Countdown\<rparr>),
             timers := timers s @ [(3000, CountdownTimer matchId)]\<rparr>,
           [(matchId, CountdownStart now 3000)]))"

text \<open>The loop that copies the lobby's players into the match (part_000 204-210).\<close>

fun copy_players :: "lobby_player list \<Rightarrow> (string \<times> player) list \<Rightarrow> (string \<times> player) list" where
  "copy_players [] ps = ps"
| "copy_players (p # rest) ps =
     copy_players rest (AList.update (lobby_wallet p) (fresh_player (lobby_wallet p)) ps)"

text \<open>
  \<^verbatim>\<open>deposit_made\<close> (part_000 167-223). An inherited \<^verbatim>\<open>lobby\<close> passes \<^verbatim>\<open>if (!lobby) return\<close>
  and has no \<^verbatim>\<open>players\<close>, so \<^verbatim>\<open>lobby.players[wallet]\<close> throws; an inherited
  \<^verbatim>\<open>lobby.players[wallet]\<close> has no \<^verbatim>\<open>role\<close>, so the handler returns. In the ready branch
  an inherited \<^verbatim>\<open>matches[matchId]\<close> skips the creation of the match and the copy of the
  first player throws.
\<close>

definition deposit_made :: "string \<Rightarrow> string \<Rightarrow> server \<Rightarrow> error + (server \<times> emit list)" where
  "deposit_made lobbyId w s =
     (case js_get (lobbies s) lobbyId of
        Absent \<Rightarrow> Inr (s, [])
      | Inherited \<Rightarrow> Inl TypeError
      | Own l \<Rightarrow>
          (case js_get (map_of (lobby_players l)) w of
             Absent \<Rightarrow> Inr (s, [])
           | Inherited \<Rightarrow> Inr (s, [])
           | Own p \<Rightarrow>
               (let r = role p;
                    l1 = l\<lparr>deposits := set_deposit r (deposits l),
                           lobby_players := AList.update w (p\<lparr>deposited := True\<rparr>) (lobby_players l)\<rparr>;
                    out1 = [(lobbyId, DepositConfirmed r)]
                in if creator (deposits l1) \<and> opponent (deposits l1) then
                     (let l2 = l1\<lparr>lobby_state := Ready\<rparr>;
                          matchId = lobbyId
                      in if js_get (matches s) matchId = Inherited then Inl TypeError
                         else
                           (let m0 = (case matches s matchId of
                                        None \<Rightarrow> new_match matchId 30 | Some m \<Rightarrow> m);
                                m1 = m0\<lparr>players :=
                                          copy_players (map snd (lobby_players l2)) (players m0)\<rparr>;
                                m2 = m1\<lparr>state := Waiting\<rparr>
                            in Inr (s\<lparr>lobbies := (lobbies s)(lobbyId \<mapsto> l2),
                                      matches := (matches s)(matchId \<mapsto> m2),
                                      timers := timers s @ [(2000, StartTimer matchId)]\<rparr>,
                                    out1 @ [(lobbyId, MatchReady (Some matchId))])))
                   else Inr (s\<lparr>lobbies := (lobbies s)(lobbyId \<mapsto> l1)\<rparr>, out1))))"

text \<open>
  \<^verbatim>\<open>join_match\<close> (part_000 226-261). The test \<^verbatim>\<open>if (!matches[matchId].players[wallet])\<close>
  is a plain read: a wallet that names an inherited property is taken for a player and is
  not added.
\<close>

definition join_match :: "nat \<Rightarrow> string \<Rightarrow> string \<Rightarrow> string \<Rightarrow> server \<Rightarrow> server \<times> emit list" where
  "join_match now sid matchId w s =
     (let m0 = (case matches s matchId of None \<Rightarrow> new_match matchId 30 | Some m \<Rightarrow> m);
          m1 = (case js_get (map_of (players m0)) w of
                  Absent \<Rightarrow> m0\<lparr>players := AList.update w (fresh_player w) (players m0)\<rparr>
                | Inherited \<Rightarrow> m0
                | Own p \<Rightarrow> m0);
          s1 = socket_join sid matchId (s\<lparr>matches := (matches s)(matchId \<mapsto> m1)\<rparr>);
          playerCount = length (players m1);
          out1 = [(matchId, PlayerJoined playerCount)]
      in if playerCount \<ge> 2 \<and> state m1 = Waiting then
           (case startMatchCountdown now matchId s1 of (s2, out2) \<Rightarrow> (s2, out1 @ out2))
         else (s1, out1))"

text \<open>
  The timer callbacks: the settle timer of \<^verbatim>\<open>deposit_made\<close> (part_000 217-221), the end of
  the countdown (309-323) and the end of the game (324-342).
\<close>

definition callback :: "nat \<Rightarrow> timer \<Rightarrow> server \<Rightarrow> error + (server \<times> emit list)" where
  "callback now t s =
     (case t of
        StartTimer matchId \<Rightarrow>
          (case matches s matchId of
             None \<Rightarrow> Inr (s, [])
           | Some m \<Rightarrow>
               (if state m = Waiting then Inr (startMatchCountdown now matchId s)
                else Inr (s, [])))
      | CountdownTimer matchId \<Rightarrow>
          (case matches s matchId of
             None \<Rightarrow> Inr (s, [])
           | Some m \<Rightarrow>
               Inr (s\<lparr>matches := (matches s)(matchId \<mapsto> m\<lparr>state := Active\<rparr>),
                      timers := timers s @ [(30000, GameTimer matchId)]\<rparr>,
                    [(matchId, GameStart now 30000)]))
      | GameTimer matchId \<Rightarrow>
          (case matches s matchId of
             None \<Rightarrow> Inr (s, [])
           | Some m \<Rightarrow>
               (let sc = scores (players m)
                in case reduce_winner sc of
                     Inl e \<Rightarrow> Inl e
                   | Inr win \<Rightarrow>
                       Inr (s\<lparr>matches := (matches s)(matchId \<mapsto>
                                 m\<lparr>state := Finished, winner := Some win\<rparr>)\<rparr>,
                            [(matchId, GameEnd sc win)]))))"

text \<open>
  One event. An inherited \<^verbatim>\<open>lobbies[lobbyId]\<close> or \<^verbatim>\<open>matches[matchId]\<close> skips the creation
  of the session and has no \<^verbatim>\<open>players\<close>, so the join handlers throw at their first access
  to \<^verbatim>\<open>.players[wallet]\<close> (part_000 149 and 241), before any write.
\<close>

definition step :: "nat \<Rightarrow> event \<Rightarrow> server \<Rightarrow> error + (server \<times> emit list)" where
  "step now e s =
     (case e of
        JoinLobby sid lobbyId w r \<Rightarrow>
          (if js_get (lobbies s) lobbyId = Inherited then Inl TypeError
           else Inr (join_lobby sid lobbyId w r s))
      | DepositMade sid lobbyId w \<Rightarrow> deposit_made lobbyId w s
      | JoinMatch sid matchId w \<Rightarrow>
          (if js_get (matches s) matchId = Inherited then Inl TypeError
           else Inr (join_match now sid matchId w s))
      | Tap sid matchId w \<Rightarrow> Inr (tap matchId w s)
      | Disconnecting sid \<Rightarrow> Inr (disconnecting sid s)
      | Fire i \<Rightarrow>
          (if i < length (timers s)
           then callback now (snd (timers s ! i)) (s\<lparr>timers := remove_timer i (timers s)\<rparr>)
           else Inr (s, [])))"

text \<open>A run handles the events in order and stops at the first uncaught error.\<close>

fun run :: "(nat \<times> event) list \<Rightarrow> server \<Rightarrow> error + (server \<times> emit list)" where
  "run [] s = Inr (s, [])"
| "run ((now, e) # rest) s =
     (case step now e s of
        Inl err \<Rightarrow> Inl err
      | Inr (s1, out1) \<Rightarrow>
          (case run rest s1 of
             Inl err \<Rightarrow> Inl err
           | Inr (s2, out2) \<Rightarrow> Inr (s2, out1 @ out2)))"

section \<open>The revision of src/server.ts\<close>

text \<open>
  \<^verbatim>\<open>deposit_made\<close> (server.ts 65-86): no match is created and no timer armed. The reads
  of \<^verbatim>\<open>lobbies[lobbyId]\<close> and \<^verbatim>\<open>lobby.players[wallet]\<close> are those of the later revision.
\<close>

definition deposit_made_server :: "string \<Rightarrow> string \<Rightarrow> server \<Rightarrow> error + (server \<times> emit list)" where
  "deposit_made_server lobbyId w s =
     (case js_get (lobbies s) lobbyId of
        Absent \<Rightarrow> Inr (s, [])
      | Inherited \<Rightarrow> Inl TypeError
      | Own l \<Rightarrow>
          (case js_get (map_of (lobby_players l)) w of
             Absent \<Rightarrow> Inr (s, [])
           | Inherited \<Rightarrow> Inr (s, [])
           | Own p \<Rightarrow>
               (let r = role p;
                    l1 = l\<lparr>deposits := set_deposit r (deposits l),
                           lobby_players := AList.update w (p\<lparr>deposited := True\<rparr>) (lobby_players l)\<rparr>;
                    out1 = [(lobbyId, DepositConfirmed r)]
                in if creator (deposits l1) \<and> opponent (deposits l1) then
                     Inr (s\<lparr>lobbies := (lobbies s)(lobbyId \<mapsto> l1\<lparr>lobby_state := Ready\<rparr>)\<rparr>,
                          out1 @ [(lobbyId, MatchReady None)])
                   else Inr (s\<lparr>lobbies := (lobbies s)(lobbyId \<mapsto> l1)\<rparr>, out1))))"

text \<open>\<^verbatim>\<open>join_match\<close> (server.ts 88-117; the nested timers follow below).\<close>

definition join_match_server :: "nat \<Rightarrow> string \<Rightarrow> string \<Rightarrow> string \<Rightarrow> server \<Rightarrow> server \<times> emit list" where
  "join_match_server now sid matchId w s =
     (let m0 = (case matches s matchId of None \<Rightarrow> new_match matchId 10 | Some m \<Rightarrow> m);
          m1 = m0\<lparr>players := AList.update w (fresh_player w) (players m0)\<rparr>;
          s1 = socket_join sid matchId (s\<lparr>matches := (matches s)(matchId \<mapsto> m1)\<rparr>);
          out1 = [(matchId, PlayerJoined (length (players m1)))]
      in if length (players m1) = 2 then
           (s1\<lparr>matches := (matches s1)(matchId \<mapsto> m1\<lparr>state := Countdown\<rparr>),
               timers := timers s1 @ [(3000, CountdownTimer matchId)]\<rparr>,
            out1 @ [(matchId, CountdownStart now 3000)])
         else (s1, out1))"

text \<open>
  The timer callbacks (server.ts 118-142): neither checks that the match exists, and the
  winner is a local constant that is broadcast and not stored.
\<close>

definition callback_server :: "nat \<Rightarrow> timer \<Rightarrow> server \<Rightarrow> error + (server \<times> emit list)" where
  "callback_server now t s =
     (case t of
        StartTimer matchId \<Rightarrow> Inr (s, [])
      | CountdownTimer matchId \<Rightarrow>
          (case matches s matchId of
             None \<Rightarrow> Inl TypeError
           | Some m \<Rightarrow>
               Inr (s\<lparr>matches := (matches s)(matchId \<mapsto> m\<lparr>state := Active\<rparr>),
                      timers := timers s @ [(30000, GameTimer matchId)]\<rparr>,
                    [(matchId, GameStart now 30000)]))
      | GameTimer matchId \<Rightarrow>
          (case matches s matchId of
             None \<Rightarrow> Inl TypeError
           | Some m \<Rightarrow>
               (let sc = scores (players m)
                in case reduce_winner sc of
                     Inl e \<Rightarrow> Inl e
                   | Inr win \<Rightarrow>
                       Inr (s\<lparr>matches := (matches s)(matchId \<mapsto> m\<lparr>state := Finished\<rparr>)\<rparr>,
                            [(matchId, GameEnd sc win)]))))"

text \<open>One event; the join handlers throw on an inherited session (server.ts 47 and 98).\<close>

definition step_server :: "nat \<Rightarrow> event \<Rightarrow> server \<Rightarrow> error + (server \<times> emit list)" where
  "step_server now e s =
     (case e of
        JoinLobby sid lobbyId w r \<Rightarrow>
          (if js_get (lobbies s) lobbyId = Inherited then Inl TypeError
           else Inr (join_lobby sid lobbyId w r s))
      | DepositMade sid lobbyId w \<Rightarrow> deposit_made_server lobbyId w s
      | JoinMatch sid matchId w \<Rightarrow>
          (if js_get (matches s) matchId = Inherited then Inl TypeError
           else Inr (join_match_server now sid matchId w s))
      | Tap sid matchId w \<Rightarrow> Inr (tap matchId w s)
      | Disconnecting sid \<Rightarrow> Inr (disconnecting sid s)
      | Fire i \<Rightarrow>
          (if i < length (timers s)
           then callback_server now (snd (timers s ! i)) (s\<lparr>timers := remove_timer i (timers s)\<rparr>)
           else Inr (s, [])))"

fun run_server :: "(nat \<times> event) list \<Rightarrow> server \<Rightarrow> error + (server \<times> emit list)" where
  "run_server [] s = Inr (s, [])"
| "run_server ((now, e) # rest) s =
     (case step_server now e s of
        Inl err \<Rightarrow> Inl err
      | Inr (s1, out1) \<Rightarrow>
          (case run_server rest s1 of
             Inl err \<Rightarrow> Inl err
           | Inr (s2, out2) \<Rightarrow> Inr (s2, out1 @ out2)))"

section \<open>Invariants of the lobby registry\<close>

text \<open>The lobby registry after a deposit that does not throw, in either revision.\<close>

definition lobbies_after_deposit :: "(string \<rightharpoonup> lobby) \<Rightarrow> string \<Rightarrow> string \<Rightarrow> (string \<rightharpoonup> lobby)" where
  "lobbies_after_deposit ls lobbyId w =
     (case ls lobbyId of
        None \<Rightarrow> ls
      | Some l \<Rightarrow>
          (case map_of (lobby_players l) w of
             None \<Rightarrow> ls
           | Some p \<Rightarrow>
               ls(lobbyId \<mapsto>
                  l\<lparr>deposits := set_deposit (role p) (deposits l),
                    lobby_players := AList.update w (p\<lparr>deposited := True\<rparr>) (lobby_players l),
                    lobby_state :=
                      (if creator (set_deposit (role p) (deposits l)) \<and>
                          opponent (set_deposit (role p) (deposits l))
                       then Ready else lobby_state l)\<rparr>)))"

text \<open>Every lobby is ready exactly when both deposit flags are set.\<close>

definition ready_inv :: "(string \<rightharpoonup> lobby) \<Rightarrow> bool" where
  "ready_inv ls = (\<forall>lobbyId l. ls lobbyId = Some l \<longrightarrow>
      (lobby_state l = Ready) = (creator (deposits l) \<and> opponent (deposits l)))"

text \<open>From one registry to a later one no lobby disappears, loses a flag or leaves \<open>Ready\<close>.\<close>

definition flags_kept :: "(string \<rightharpoonup> lobby) \<Rightarrow> (string \<rightharpoonup> lobby) \<Rightarrow> bool" where
  "flags_kept ls ls' = (\<forall>lobbyId l. ls lobbyId = Some l \<longrightarrow>
      (\<exists>l'. ls' lobbyId = Some l' \<and>
         (creator (deposits l) \<longrightarrow> creator (deposits l')) \<and>
         (opponent (deposits l) \<longrightarrow> opponent (deposits l')) \<and>
         (lobby_state l = Ready \<longrightarrow> lobby_state l' = Ready)))"

section \<open>Properties\<close>

subsection \<open>Auxiliary facts\<close>

lemma player_left_eq:
  "player_left ms rs =
     map (\<lambda>r. (r, PlayerLeft (int (length (players (the (ms r)))) - 1))) (filter (\<lambda>r. ms r \<noteq> None) rs)"
  by (induction rs) (auto split: option.splits)


lemmas handler_defs = step_def join_lobby_def deposit_made_def socket_join_def new_lobby_def
  set_deposit_def new_match_def fresh_player_def callback_def startMatchCountdown_def remove_timer_def
  Let_def tap_def scores_def reduce_winner_def join_match_def disconnecting_def
  step_server_def deposit_made_server_def join_match_server_def callback_server_def
  js_get_def inherited_def

text \<open>An invariant of every step is an invariant of every run.\<close>

lemma run_invariant:
  assumes "\<And>now e s s' out. P s \<Longrightarrow> step now e s = Inr (s', out) \<Longrightarrow> P s'"
    and "P s" and "run evs s = Inr (s', out)"
  shows "P s'"
  using assms(2,3)
proof (induction evs arbitrary: s out)
  case Nil
  then show ?case by simp
next
  case (Cons a evs)
  obtain now e where a: "a = (now, e)" by (cases a)
  from Cons.prems(2) obtain s1 out1 out2 where
    "step now e s = Inr (s1, out1)" "run evs s1 = Inr (s', out2)"
    by (auto simp: a split: sum.splits prod.splits)
  with Cons.IH assms(1) Cons.prems(1) show ?case by blast
qed

lemma run_server_invariant:
  assumes "\<And>now e s s' out. P s \<Longrightarrow> step_server now e s = Inr (s', out) \<Longrightarrow> P s'"
    and "P s" and "run_server evs s = Inr (s', out)"
  shows "P s'"
  using assms(2,3)
proof (induction evs arbitrary: s out)
  case Nil
  then show ?case by simp
next
  case (Cons a evs)
  obtain now e where a: "a = (now, e)" by (cases a)
  from Cons.prems(2) obtain s1 out1 out2 where
    "step_server now e s = Inr (s1, out1)" "run_server evs s1 = Inr (s', out2)"
    by (auto simp: a split: sum.splits prod.splits)
  with Cons.IH assms(1) Cons.prems(1) show ?case by blast
qed

text \<open>Which lobbies a step can touch, and how.\<close>

lemma lobbies_join_lobby:
  "lobbies (fst (join_lobby sid lobbyId w r s)) =
     (lobbies s)(lobbyId \<mapsto>
        (case lobbies s lobbyId of None \<Rightarrow> new_lobby lobbyId | Some l \<Rightarrow> l)
          \<lparr>lobby_players := AList.update w \<lparr>lobby_wallet = w, role = r, deposited = False\<rparr>
             (lobby_players (case lobbies s lobbyId of None \<Rightarrow> new_lobby lobbyId | Some l \<Rightarrow> l))\<rparr>)"
  by (simp add: join_lobby_def socket_join_def Let_def)

lemma lobbies_deposit_made:
  "deposit_made lobbyId w s = Inr (s', out) \<Longrightarrow> lobbies s' = lobbies_after_deposit (lobbies s) lobbyId w"
  by (auto simp: deposit_made_def lobbies_after_deposit_def js_get_def Let_def
      split: option.splits if_splits)

lemma lobbies_deposit_made_server:
  "deposit_made_server lobbyId w s = Inr (s', out) \<Longrightarrow>
     lobbies s' = lobbies_after_deposit (lobbies s) lobbyId w"
  by (auto simp: deposit_made_server_def lobbies_after_deposit_def js_get_def Let_def
      split: option.splits if_splits)

lemma lobbies_startMatchCountdown [simp]:
  "lobbies (fst (startMatchCountdown now matchId s)) = lobbies s"
  by (simp add: startMatchCountdown_def split: option.splits)

lemma lobbies_join_match [simp]:
  "lobbies (fst (join_match now sid matchId w s)) = lobbies s"
  by (simp add: join_match_def js_get_def socket_join_def Let_def startMatchCountdown_def
      split: option.splits prod.splits)

lemma lobbies_join_match_server [simp]:
  "lobbies (fst (join_match_server now sid matchId w s)) = lobbies s"
  by (simp add: join_match_server_def socket_join_def Let_def)

lemma lobbies_tap [simp]: "lobbies (fst (tap matchId w s)) = lobbies s"
  by (simp add: tap_def js_get_def Let_def split: option.splits)

lemma lobbies_callback:
  "callback now t s = Inr (s', out) \<Longrightarrow> lobbies s' = lobbies s"
  by (auto simp: callback_def startMatchCountdown_def Let_def split: timer.splits option.splits if_splits sum.splits)

lemma lobbies_callback_server:
  "callback_server now t s = Inr (s', out) \<Longrightarrow> lobbies s' = lobbies s"
  by (auto simp: callback_server_def Let_def split: timer.splits option.splits if_splits sum.splits)

text \<open>The lobbies after a step, in terms of the lobbies before.\<close>

lemma lobbies_step:
  assumes "step now e s = Inr (s', out)"
  shows "lobbies s' =
     (case e of
        JoinLobby sid lobbyId w r \<Rightarrow> lobbies (fst (join_lobby sid lobbyId w r s))
      | DepositMade sid lobbyId w \<Rightarrow> lobbies_after_deposit (lobbies s) lobbyId w
      | _ \<Rightarrow> lobbies s)"
proof (cases e)
  case (Fire i)
  with assms show ?thesis
    by (auto simp: step_def dest!: lobbies_callback split: if_splits)
next
  case (DepositMade sid lobbyId w)
  with assms show ?thesis
    by (auto simp: step_def dest!: lobbies_deposit_made)
qed (use assms in \<open>auto simp: step_def disconnecting_def split: if_splits
       dest!: arg_cong [where f = "\<lambda>x. lobbies (fst x)"]\<close>)

lemma lobbies_step_server:
  assumes "step_server now e s = Inr (s', out)"
  shows "lobbies s' =
     (case e of
        JoinLobby sid lobbyId w r \<Rightarrow> lobbies (fst (join_lobby sid lobbyId w r s))
      | DepositMade sid lobbyId w \<Rightarrow> lobbies_after_deposit (lobbies s) lobbyId w
      | _ \<Rightarrow> lobbies s)"
proof (cases e)
  case (Fire i)
  with assms show ?thesis
    by (auto simp: step_server_def dest!: lobbies_callback_server split: if_splits)
next
  case (DepositMade sid lobbyId w)
  with assms show ?thesis
    by (auto simp: step_server_def dest!: lobbies_deposit_made_server)
qed (use assms in \<open>auto simp: step_server_def disconnecting_def split: if_splits
       dest!: arg_cong [where f = "\<lambda>x. lobbies (fst x)"]\<close>)

lemma ready_inv_join_lobby:
  "ready_inv (lobbies s) \<Longrightarrow> ready_inv (lobbies (fst (join_lobby sid lobbyId w r s)))"
  by (auto simp: ready_inv_def lobbies_join_lobby new_lobby_def split: option.splits)

lemma ready_inv_deposit:
  "ready_inv ls \<Longrightarrow> ready_inv (lobbies_after_deposit ls lobbyId w)"
  by (auto simp: ready_inv_def lobbies_after_deposit_def set_deposit_def split: option.splits role.splits)

lemma ready_inv_step:
  "ready_inv (lobbies s) \<Longrightarrow> step now e s = Inr (s', out) \<Longrightarrow> ready_inv (lobbies s')"
  by (cases e) (auto simp: ready_inv_join_lobby ready_inv_deposit dest!: lobbies_step)

lemma ready_inv_step_server:
  "ready_inv (lobbies s) \<Longrightarrow> step_server now e s = Inr (s', out) \<Longrightarrow> ready_inv (lobbies s')"
  by (cases e) (auto simp: ready_inv_join_lobby ready_inv_deposit dest!: lobbies_step_server)
lemma flags_kept_refl: "flags_kept ls ls"
  by (simp add: flags_kept_def)

lemma flags_kept_trans: "flags_kept a b \<Longrightarrow> flags_kept b c \<Longrightarrow> flags_kept a c"
  unfolding flags_kept_def by (metis (no_types, lifting))

lemma flags_kept_join_lobby: "flags_kept (lobbies s) (lobbies (fst (join_lobby sid lobbyId w r s)))"
  by (auto simp: flags_kept_def lobbies_join_lobby)

lemma flags_kept_deposit: "flags_kept ls (lobbies_after_deposit ls lobbyId w)"
  by (auto simp: flags_kept_def lobbies_after_deposit_def set_deposit_def split: option.splits role.splits)

lemma flags_kept_step: "step now e s = Inr (s', out) \<Longrightarrow> flags_kept (lobbies s) (lobbies s')"
  by (cases e) (auto simp: flags_kept_join_lobby flags_kept_deposit flags_kept_refl dest!: lobbies_step)

lemma flags_kept_step_server: "step_server now e s = Inr (s', out) \<Longrightarrow> flags_kept (lobbies s) (lobbies s')"
  by (cases e) (auto simp: flags_kept_join_lobby flags_kept_deposit flags_kept_refl dest!: lobbies_step_server)

lemma flags_kept_run: "run evs s = Inr (s', out) \<Longrightarrow> flags_kept (lobbies s) (lobbies s')"
proof (induction evs arbitrary: s out)
  case Nil
  then show ?case by (simp add: flags_kept_refl)
next
  case (Cons a evs)
  obtain now e where a: "a = (now, e)" by (cases a)
  from Cons.prems obtain s1 out1 out2 where
    "step now e s = Inr (s1, out1)" "run evs s1 = Inr (s', out2)"
    by (auto simp: a split: sum.splits prod.splits)
  with Cons.IH show ?case
    by (blast intro: flags_kept_trans flags_kept_step)
qed

lemma flags_kept_run_server: "run_server evs s = Inr (s', out) \<Longrightarrow> flags_kept (lobbies s) (lobbies s')"
proof (induction evs arbitrary: s out)
  case Nil
  then show ?case by (simp add: flags_kept_refl)
next
  case (Cons a evs)
  obtain now e where a: "a = (now, e)" by (cases a)
  from Cons.prems obtain s1 out1 out2 where
    "step_server now e s = Inr (s1, out1)" "run_server evs s1 = Inr (s', out2)"
    by (auto simp: a split: sum.splits prod.splits)
  with Cons.IH show ?case
    by (blast intro: flags_kept_trans flags_kept_step_server)
qed

text \<open>The fold of \<^verbatim>\<open>reduce\<close> returns an element of the array with the greatest score.\<close>

lemma reduce_mem:
  "foldl (\<lambda>a b. if snd a > snd b then a else b) (x :: 'a \<times> nat) xs \<in> set (x # xs)"
  by (induction xs arbitrary: x) auto

lemma reduce_acc_le:
  "snd x \<le> snd (foldl (\<lambda>a b. if snd a > snd b then a else b) (x :: 'a \<times> nat) xs)"
proof (induction xs arbitrary: x)
  case Nil
  then show ?case by simp
next
  case (Cons z zs)
  have "snd x \<le> snd (if snd x > snd z then x else z)" by simp
  also have "\<dots> \<le> snd (foldl (\<lambda>a b. if snd a > snd b then a else b) (if snd x > snd z then x else z) zs)"
    by (rule Cons.IH)
  finally show ?case by simp
qed

lemma reduce_ge:
  "y \<in> set xs \<Longrightarrow> snd y \<le> snd (foldl (\<lambda>a b. if snd a > snd b then a else b) (x :: 'a \<times> nat) xs)"
proof (induction xs arbitrary: x)
  case Nil
  then show ?case by simp
next
  case (Cons z zs)
  show ?case
  proof (cases "y = z")
    case True
    have "snd z \<le> snd (if snd x > snd z then x else z)" by simp
    also have "\<dots> \<le> snd (foldl (\<lambda>a b. if snd a > snd b then a else b) (if snd x > snd z then x else z) zs)"
      by (rule reduce_acc_le)
    finally show ?thesis using True by simp
  next
    case False
    with Cons.prems have "y \<in> set zs" by simp
    then show ?thesis by (simp add: Cons.IH)
  qed
qed

lemma reduce_winner_max:
  assumes "ps \<noteq> []"
  shows "\<exists>p. p \<in> snd ` set ps \<and> (\<forall>q \<in> snd ` set ps. taps q \<le> taps p) \<and>
             reduce_winner (scores ps) = Inr (wallet p)"
proof -
  from assms obtain x xs where sc: "scores ps = x # xs"
    by (cases ps) (auto simp: scores_def)
  define r where "r = foldl (\<lambda>a b. if snd a > snd b then a else b) x xs"
  have "r \<in> set (scores ps)" unfolding r_def sc by (rule reduce_mem)
  then obtain p where p: "p \<in> snd ` set ps" "r = (wallet p, taps p)"
    by (auto simp: scores_def)
  have "taps q \<le> taps p" if "q \<in> snd ` set ps" for q
  proof -
    from that have "(wallet q, taps q) \<in> set (x # xs)"
      unfolding sc [symmetric] by (auto simp: scores_def)
    then have "(wallet q, taps q) = x \<or> (wallet q, taps q) \<in> set xs" by simp
    then show ?thesis
    proof
      assume "(wallet q, taps q) = x"
      with reduce_acc_le [of x xs] show ?thesis by (simp add: r_def [symmetric] p prod_eq_iff)
    next
      assume "(wallet q, taps q) \<in> set xs"
      from reduce_ge [OF this, of x] show ?thesis by (simp add: r_def [symmetric] p)
    qed
  qed
  moreover have "reduce_winner (scores ps) = Inr (wallet p)"
    by (simp add: reduce_winner_def sc r_def [symmetric] p)
  ultimately show ?thesis using p(1) by blast
qed

subsection \<open>Taps\<close>

text \<open>
  For a wallet that does not name an inherited property, \<open>tap\<close> raises the player's counter
  by exactly one when the match exists, its state is \<open>Active\<close> and the wallet is a key of
  its players: the new entry is the old one with \<open>taps + 1\<close>, every other entry, the order
  of the keys, the other fields of the match and the rest of the server are as before, and
  the one broadcast is the \<open>tap_update\<close> with the new count. In every other case the call
  changes nothing and emits nothing. The handler is the same in every revision.
\<close>

lemma tap_ordinary_wallet:
  assumes "tap matchId w s = (s', out)" and "\<not> inherited w"
  shows "((\<exists>m p. matches s matchId = Some m \<and> state m = Active \<and> map_of (players m) w = Some p) \<longrightarrow>
          (\<exists>m p m'. matches s matchId = Some m \<and> map_of (players m) w = Some p \<and>
             map_of (players m') w = Some (p\<lparr>taps := taps p + 1\<rparr>) \<and>
             (\<forall>w'. w' \<noteq> w \<longrightarrow> map_of (players m') w' = map_of (players m) w') \<and>
             map fst (players m') = map fst (players m) \<and>
             m' = m\<lparr>players := players m'\<rparr> \<and>
             s' = s\<lparr>matches := (matches s)(matchId \<mapsto> m')\<rparr> \<and>
             out = [(matchId, TapUpdate w (Num (taps p + 1)))]))
       \<and> (\<not> (\<exists>m p. matches s matchId = Some m \<and> state m = Active \<and> map_of (players m) w = Some p) \<longrightarrow>
            s' = s \<and> out = [])"
proof (rule conjI; rule impI)
  assume "\<exists>m p. matches s matchId = Some m \<and> state m = Active \<and> map_of (players m) w = Some p"
  then obtain m p where mp: "matches s matchId = Some m" "state m = Active" "map_of (players m) w = Some p"
    by blast
  define m' where "m' = m\<lparr>players := AList.update w (p\<lparr>taps := taps p + 1\<rparr>) (players m)\<rparr>"
  from mp(3) have "w \<in> fst ` set (players m)"
    by (metis domI dom_map_of_conv_image_fst)
  then have keys: "map fst (players m') = map fst (players m)"
    by (simp add: m'_def update_keys)
  have res: "s' = s\<lparr>matches := (matches s)(matchId \<mapsto> m')\<rparr>"
    "out = [(matchId, TapUpdate w (Num (taps p + 1)))]"
    using assms(1) mp by (simp_all add: tap_def js_get_def m'_def)
  have "map_of (players m') w = Some (p\<lparr>taps := taps p + 1\<rparr>)"
    and "\<forall>w'. w' \<noteq> w \<longrightarrow> map_of (players m') w' = map_of (players m) w'"
    and "m' = m\<lparr>players := players m'\<rparr>"
    by (simp_all add: m'_def update_conv')
  with mp keys res
  show "\<exists>m p m'. matches s matchId = Some m \<and> map_of (players m) w = Some p \<and>
             map_of (players m') w = Some (p\<lparr>taps := taps p + 1\<rparr>) \<and>
             (\<forall>w'. w' \<noteq> w \<longrightarrow> map_of (players m') w' = map_of (players m) w') \<and>
             map fst (players m') = map fst (players m) \<and>
             m' = m\<lparr>players := players m'\<rparr> \<and>
             s' = s\<lparr>matches := (matches s)(matchId \<mapsto> m')\<rparr> \<and>
             out = [(matchId, TapUpdate w (Num (taps p + 1)))]"
    by blast
next
  assume "\<not> (\<exists>m p. matches s matchId = Some m \<and> state m = Active \<and> map_of (players m) w = Some p)"
  then show "s' = s \<and> out = []"
    using assms by (auto simp: tap_def js_get_def split: option.splits if_splits)
qed

text \<open>
  Claim C2 asks that a tap for a wallet that is not a key of the match's players changes
  nothing and broadcasts nothing. The handler tests \<^verbatim>\<open>match.players[wallet]\<close> on a plain
  object (server.ts 148, part_000 266), and for the wallet \<^verbatim>\<open>toString\<close> that read finds the
  inherited function, which is truthy: in an active match whose players are \<open>A\<close> and \<open>B\<close>
  the tap writes \<^verbatim>\<open>taps = NaN\<close> on that function and broadcasts a \<open>tap_update\<close> for
  \<^verbatim>\<open>toString\<close>, in both revisions.
\<close>

theorem tap_inherited_wallet_broadcasts:
  "(\<exists>s1 out1 m s2 out2.
      run [(0, JoinMatch ''sa'' ''M'' ''A''), (1, JoinMatch ''sb'' ''M'' ''B''),
           (3001, Fire 0)] init = Inr (s1, out1) \<and>
      matches s1 ''M'' = Some m \<and> state m = Active \<and> map fst (players m) = [''A'', ''B''] \<and>
      step 4000 (Tap ''sc'' ''M'' ''toString'') s1 = Inr (s2, out2) \<and>
      out2 = [(''M'', TapUpdate ''toString'' NaN)] \<and>
      inherited_taps s1 = {} \<and> inherited_taps s2 = {''toString''})
   \<and> (\<exists>s1 out1 m s2 out2.
      run_server [(0, JoinMatch ''sa'' ''M'' ''A''), (1, JoinMatch ''sb'' ''M'' ''B''),
                  (3001, Fire 0)] init = Inr (s1, out1) \<and>
      matches s1 ''M'' = Some m \<and> state m = Active \<and> map fst (players m) = [''A'', ''B''] \<and>
      step_server 4000 (Tap ''sc'' ''M'' ''toString'') s1 = Inr (s2, out2) \<and>
      out2 = [(''M'', TapUpdate ''toString'' NaN)] \<and>
      inherited_taps s1 = {} \<and> inherited_taps s2 = {''toString''})"
  by (simp add: init_def handler_defs)

subsection \<open>Deposits of unknown wallets\<close>

text \<open>
  \<open>deposit_made\<close> for a lobby id that reads \<^verbatim>\<open>undefined\<close>, or for a wallet that is not a key
  of the lobby's players, returns the server unchanged (deposit flags, players and lobby
  state included) and emits nothing; it is not an error. Both revisions of the handler
  behave so.
\<close>

lemma deposit_made_unknown_ordinary:
  assumes "(lobbies s lobbyId = None \<and> \<not> inherited lobbyId) \<or>
           (\<exists>l. lobbies s lobbyId = Some l \<and> map_of (lobby_players l) w = None)"
  shows "step now (DepositMade sid lobbyId w) s = Inr (s, []) \<and>
         step_server now (DepositMade sid lobbyId w) s = Inr (s, [])"
  using assms
  by (auto simp: step_def step_server_def deposit_made_def deposit_made_server_def js_get_def)

text \<open>
  Claim C8 asks that \<open>deposit_made\<close> for a lobby that does not exist is ignored silently
  and is not an error. The handler tests \<^verbatim>\<open>if (!lobby) return\<close> on a read of a plain object
  (server.ts 66-68, part_000 168-170): for the lobby id \<^verbatim>\<open>constructor\<close>, which no one has
  joined, the read finds the inherited function, the test passes, \<^verbatim>\<open>lobby.players\<close> is
  \<^verbatim>\<open>undefined\<close> and \<^verbatim>\<open>lobby.players[wallet]\<close> throws a \<^verbatim>\<open>TypeError\<close>, in both revisions.
\<close>

theorem deposit_made_inherited_lobby_throws:
  "lobbies init ''constructor'' = None \<and>
   step 0 (DepositMade ''sa'' ''constructor'' ''A'') init = Inl TypeError \<and>
   step_server 0 (DepositMade ''sa'' ''constructor'' ''A'') init = Inl TypeError"
  by (simp add: init_def handler_defs)

subsection \<open>Disconnects\<close>

text \<open>
  Claim C9. The \<open>disconnecting\<close> handler returns the server as it was: rosters, taps,
  deposits, phases and pending timers are untouched. Its only effect is one \<open>player_left\<close>
  broadcast, carrying the stored player count minus one, for each room of the connection
  that names a match. Hence whatever follows the disconnect runs exactly as it would have
  without it. In particular the match still finishes: when the game timer of a match is
  pending at the disconnect and fires after it, the match is \<open>Finished\<close> with the roster
  and the taps it had before the disconnect, and the \<open>game_end\<close> broadcast carries those
  taps, the disconnected player's included, and the winner computed from them. When the
  countdown timer is pending, it fires, the game starts, and the game timer it arms ends
  the match in the same way.
\<close>

theorem disconnecting_only_broadcasts:
  "step now (Disconnecting sid) s =
     Inr (s, map (\<lambda>r. (r, PlayerLeft (int (length (players (the (matches s r)))) - 1)))
                 (filter (\<lambda>r. matches s r \<noteq> None) (rooms s sid)))
   \<and> step_server now (Disconnecting sid) s = step now (Disconnecting sid) s
   \<and> map_sum id fst (run ((now, Disconnecting sid) # evs) s) = map_sum id fst (run evs s)
   \<and> map_sum id fst (run_server ((now, Disconnecting sid) # evs) s) = map_sum id fst (run_server evs s)
   \<and> (matches s matchId = Some m \<and> players m \<noteq> [] \<and>
       i < length (timers s) \<and> snd (timers s ! i) = GameTimer matchId \<longrightarrow>
       (\<exists>win. reduce_winner (scores (players m)) = Inr win \<and>
          run [(now, Disconnecting sid), (t, Fire i)] s =
            Inr (s\<lparr>timers := remove_timer i (timers s),
                   matches := (matches s)(matchId \<mapsto> m\<lparr>state := Finished, winner := Some win\<rparr>)\<rparr>,
                 map (\<lambda>r. (r, PlayerLeft (int (length (players (the (matches s r)))) - 1)))
                     (filter (\<lambda>r. matches s r \<noteq> None) (rooms s sid)) @
                 [(matchId, GameEnd (map (\<lambda>(k, q). (wallet q, taps q)) (players m)) win)]) \<and>
          run_server [(now, Disconnecting sid), (t, Fire i)] s =
            Inr (s\<lparr>timers := remove_timer i (timers s),
                   matches := (matches s)(matchId \<mapsto> m\<lparr>state := Finished\<rparr>)\<rparr>,
                 map (\<lambda>r. (r, PlayerLeft (int (length (players (the (matches s r)))) - 1)))
                     (filter (\<lambda>r. matches s r \<noteq> None) (rooms s sid)) @
                 [(matchId, GameEnd (map (\<lambda>(k, q). (wallet q, taps q)) (players m)) win)])))
   \<and> (matches s matchId = Some m \<and> players m \<noteq> [] \<and>
       i < length (timers s) \<and> snd (timers s ! i) = CountdownTimer matchId \<longrightarrow>
       (\<exists>win. reduce_winner (scores (players m)) = Inr win \<and>
          run [(now, Disconnecting sid), (t, Fire i), (t', Fire (length (timers s) - 1))] s =
            Inr (s\<lparr>timers := remove_timer i (timers s),
                   matches := (matches s)(matchId \<mapsto> m\<lparr>state := Finished, winner := Some win\<rparr>)\<rparr>,
                 map (\<lambda>r. (r, PlayerLeft (int (length (players (the (matches s r)))) - 1)))
                     (filter (\<lambda>r. matches s r \<noteq> None) (rooms s sid)) @
                 [(matchId, GameStart t 30000),
                  (matchId, GameEnd (map (\<lambda>(k, q). (wallet q, taps q)) (players m)) win)]) \<and>
          run_server [(now, Disconnecting sid), (t, Fire i), (t', Fire (length (timers s) - 1))] s =
            Inr (s\<lparr>timers := remove_timer i (timers s),
                   matches := (matches s)(matchId \<mapsto> m\<lparr>state := Finished\<rparr>)\<rparr>,
                 map (\<lambda>r. (r, PlayerLeft (int (length (players (the (matches s r)))) - 1)))
                     (filter (\<lambda>r. matches s r \<noteq> None) (rooms s sid)) @
                 [(matchId, GameStart t 30000),
                  (matchId, GameEnd (map (\<lambda>(k, q). (wallet q, taps q)) (players m)) win)])))"
proof -
  let ?left = "map (\<lambda>r. (r, PlayerLeft (int (length (players (the (matches s r)))) - 1)))
                 (filter (\<lambda>r. matches s r \<noteq> None) (rooms s sid))"
  have d: "step now (Disconnecting sid) s = Inr (s, ?left)"
    "step_server now (Disconnecting sid) s = Inr (s, ?left)"
    by (simp_all add: step_def step_server_def disconnecting_def player_left_eq)
  have sc: "scores (players m) = map (\<lambda>(k, q). (wallet q, taps q)) (players m)"
    by (simp add: scores_def case_prod_unfold)
  have 1: "map_sum id fst (run ((now, Disconnecting sid) # evs) s) = map_sum id fst (run evs s)"
    by (auto simp: d split: sum.splits)
  have 2: "map_sum id fst (run_server ((now, Disconnecting sid) # evs) s) = map_sum id fst (run_server evs s)"
    by (auto simp: d split: sum.splits)
  have 3: "\<exists>win. reduce_winner (scores (players m)) = Inr win \<and>
          run [(now, Disconnecting sid), (t, Fire i)] s =
            Inr (s\<lparr>timers := remove_timer i (timers s),
                   matches := (matches s)(matchId \<mapsto> m\<lparr>state := Finished, winner := Some win\<rparr>)\<rparr>,
                 ?left @ [(matchId, GameEnd (map (\<lambda>(k, q). (wallet q, taps q)) (players m)) win)]) \<and>
          run_server [(now, Disconnecting sid), (t, Fire i)] s =
            Inr (s\<lparr>timers := remove_timer i (timers s),
                   matches := (matches s)(matchId \<mapsto> m\<lparr>state := Finished\<rparr>)\<rparr>,
                 ?left @ [(matchId, GameEnd (map (\<lambda>(k, q). (wallet q, taps q)) (players m)) win)])"
    if h: "matches s matchId = Some m" "players m \<noteq> []" "i < length (timers s)"
      "snd (timers s ! i) = GameTimer matchId"
  proof -
    from reduce_winner_max [OF h(2)] obtain win where w: "reduce_winner (scores (players m)) = Inr win"
      by blast
    have "step t (Fire i) s =
            Inr (s\<lparr>timers := remove_timer i (timers s),
                   matches := (matches s)(matchId \<mapsto> m\<lparr>state := Finished, winner := Some win\<rparr>)\<rparr>,
                 [(matchId, GameEnd (map (\<lambda>(k, q). (wallet q, taps q)) (players m)) win)])"
      using h w by (simp add: step_def callback_def Let_def sc [symmetric])
    moreover have "step_server t (Fire i) s =
            Inr (s\<lparr>timers := remove_timer i (timers s),
                   matches := (matches s)(matchId \<mapsto> m\<lparr>state := Finished\<rparr>)\<rparr>,
                 [(matchId, GameEnd (map (\<lambda>(k, q). (wallet q, taps q)) (players m)) win)])"
      using h w by (simp add: step_server_def callback_server_def Let_def sc [symmetric])
    ultimately show ?thesis
      using w by (simp add: d)
  qed
  have 4: "\<exists>win. reduce_winner (scores (players m)) = Inr win \<and>
          run [(now, Disconnecting sid), (t, Fire i), (t', Fire (length (timers s) - 1))] s =
            Inr (s\<lparr>timers := remove_timer i (timers s),
                   matches := (matches s)(matchId \<mapsto> m\<lparr>state := Finished, winner := Some win\<rparr>)\<rparr>,
                 ?left @ [(matchId, GameStart t 30000),
                  (matchId, GameEnd (map (\<lambda>(k, q). (wallet q, taps q)) (players m)) win)]) \<and>
          run_server [(now, Disconnecting sid), (t, Fire i), (t', Fire (length (timers s) - 1))] s =
            Inr (s\<lparr>timers := remove_timer i (timers s),
                   matches := (matches s)(matchId \<mapsto> m\<lparr>state := Finished\<rparr>)\<rparr>,
                 ?left @ [(matchId, GameStart t 30000),
                  (matchId, GameEnd (map (\<lambda>(k, q). (wallet q, taps q)) (players m)) win)])"
    if h: "matches s matchId = Some m" "players m \<noteq> []" "i < length (timers s)"
      "snd (timers s ! i) = CountdownTimer matchId"
  proof -
    from reduce_winner_max [OF h(2)] obtain win where w: "reduce_winner (scores (players m)) = Inr win"
      by blast
    define ts where "ts = remove_timer i (timers s)"
    have len: "length ts = length (timers s) - 1"
      using h(3) by (simp add: ts_def remove_timer_def)
    define s1 where "s1 = s\<lparr>timers := ts @ [(30000, GameTimer matchId)],
                           matches := (matches s)(matchId \<mapsto> m\<lparr>state := Active\<rparr>)\<rparr>"
    have c: "step t (Fire i) s = Inr (s1, [(matchId, GameStart t 30000)])"
      "step_server t (Fire i) s = Inr (s1, [(matchId, GameStart t 30000)])"
      using h by (simp_all add: step_def step_server_def callback_def callback_server_def s1_def ts_def)
    have last: "length (timers s) - 1 < length (timers s1)"
      "snd (timers s1 ! (length (timers s) - 1)) = GameTimer matchId"
      "remove_timer (length (timers s) - 1) (timers s1) = ts"
      using len by (simp_all add: s1_def remove_timer_def nth_append)
    have m1: "matches s1 matchId = Some (m\<lparr>state := Active\<rparr>)"
      by (simp add: s1_def)
    have g: "step t' (Fire (length (timers s) - 1)) s1 =
            Inr (s\<lparr>timers := remove_timer i (timers s),
                   matches := (matches s)(matchId \<mapsto> m\<lparr>state := Finished, winner := Some win\<rparr>)\<rparr>,
                 [(matchId, GameEnd (map (\<lambda>(k, q). (wallet q, taps q)) (players m)) win)])"
      using last m1 w
      by (simp add: step_def callback_def Let_def sc [symmetric]) (simp add: s1_def ts_def)
    have gs: "step_server t' (Fire (length (timers s) - 1)) s1 =
            Inr (s\<lparr>timers := remove_timer i (timers s),
                   matches := (matches s)(matchId \<mapsto> m\<lparr>state := Finished\<rparr>)\<rparr>,
                 [(matchId, GameEnd (map (\<lambda>(k, q). (wallet q, taps q)) (players m)) win)])"
      using last m1 w
      by (simp add: step_server_def callback_server_def Let_def sc [symmetric]) (simp add: s1_def ts_def)
    show ?thesis
      using w g gs by (simp add: d c)
  qed
  from d 1 2 3 4 show ?thesis
    by (simp del: run.simps run_server.simps)
qed

text \<open>
  A connection in the room of an active match disconnects while \<open>A\<close> has two taps and \<open>B\<close>
  one: one \<open>player_left\<close> with count 1, none for the room of its own id; the game timer then
  ends the match with the scores 2 and 1 and the winner \<open>A\<close>.
\<close>

theorem disconnecting_only_broadcasts_witness:
  "(let m = (new_match ''M'' 30)\<lparr>players := [(''A'', \<lparr>wallet = ''A'', score = 0, taps = 2\<rparr>),
                                              (''B'', \<lparr>wallet = ''B'', score = 0, taps = 1\<rparr>)],
                                  state := Active\<rparr>;
        s = init\<lparr>matches := [''M'' \<mapsto> m],
                 rooms := (rooms init)(''sa'' := [''sa'', ''M'']),
                 timers := [(30000, GameTimer ''M'')]\<rparr>
    in step 7 (Disconnecting ''sa'') s = Inr (s, [(''M'', PlayerLeft 1)]) \<and>
       run [(7, Disconnecting ''sa''), (33001, Fire 0)] s =
         Inr (s\<lparr>timers := [], matches := [''M'' \<mapsto> m\<lparr>state := Finished, winner := Some ''A''\<rparr>]\<rparr>,
              [(''M'', PlayerLeft 1), (''M'', GameEnd [(''A'', 2), (''B'', 1)] ''A'')]) \<and>
       run_server [(7, Disconnecting ''sa''), (33001, Fire 0)] s =
         Inr (s\<lparr>timers := [], matches := [''M'' \<mapsto> m\<lparr>state := Finished\<rparr>]\<rparr>,
              [(''M'', PlayerLeft 1), (''M'', GameEnd [(''A'', 2), (''B'', 1)] ''A'')]))"
proof -
  define m where "m = (new_match ''M'' 30)\<lparr>players := [(''A'', \<lparr>wallet = ''A'', score = 0, taps = 2\<rparr>),
                                              (''B'', \<lparr>wallet = ''B'', score = 0, taps = 1\<rparr>)],
                                  state := Active\<rparr>"
  define s where "s = init\<lparr>matches := [''M'' \<mapsto> m],
                 rooms := (rooms init)(''sa'' := [''sa'', ''M'']),
                 timers := [(30000, GameTimer ''M'')]\<rparr>"
  have left: "map (\<lambda>r. (r, PlayerLeft (int (length (players (the (matches s r)))) - 1)))
          (filter (\<lambda>r. matches s r \<noteq> None) (rooms s ''sa'')) = [(''M'', PlayerLeft 1)]"
    by (simp add: s_def m_def init_def new_match_def)
  have h: "matches s ''M'' = Some m \<and> players m \<noteq> [] \<and>
       0 < length (timers s) \<and> snd (timers s ! 0) = GameTimer ''M''"
    by (simp add: s_def m_def init_def new_match_def)
  have sc: "map (\<lambda>(k, q). (wallet q, taps q)) (players m) = [(''A'', 2), (''B'', 1)]"
    "reduce_winner (scores (players m)) = Inr ''A''"
    by (simp_all add: m_def new_match_def scores_def reduce_winner_def)
  have st: "s\<lparr>timers := remove_timer 0 (timers s), matches := (matches s)(''M'' \<mapsto> m')\<rparr> =
            s\<lparr>timers := [], matches := [''M'' \<mapsto> m']\<rparr>" for m'
    by (simp add: s_def remove_timer_def init_def)
  note all = disconnecting_only_broadcasts [of 7 "''sa''" s "[]" "''M''" m 0 33001 0,
      unfolded left sc(1) st]
  from all have w2: "step 7 (Disconnecting ''sa'') s = Inr (s, [(''M'', PlayerLeft 1)])"
    by (rule conjunct1)
  from all [THEN conjunct2, THEN conjunct2, THEN conjunct2, THEN conjunct2, THEN conjunct1,
      THEN mp, OF h]
  obtain win where w: "reduce_winner (scores (players m)) = Inr win"
    "run [(7, Disconnecting ''sa''), (33001, Fire 0)] s =
       Inr (s\<lparr>timers := [], matches := [''M'' \<mapsto> m\<lparr>state := Finished, winner := Some win\<rparr>]\<rparr>,
            [(''M'', PlayerLeft 1), (''M'', GameEnd [(''A'', 2), (''B'', 1)] win)])"
    "run_server [(7, Disconnecting ''sa''), (33001, Fire 0)] s =
       Inr (s\<lparr>timers := [], matches := [''M'' \<mapsto> m\<lparr>state := Finished\<rparr>]\<rparr>,
            [(''M'', PlayerLeft 1), (''M'', GameEnd [(''A'', 2), (''B'', 1)] win)])"
    by (auto simp del: run.simps run_server.simps)
  from w(1) sc(2) have "win = ''A''" by simp
  with w w2 show ?thesis
    unfolding s_def [symmetric] m_def [symmetric] Let_def by (simp del: run.simps run_server.simps)
qed

subsection \<open>The ready invariant of a lobby\<close>

text \<open>
  Claim C3. After any sequence of events handled from the empty server, by either
  revision, every lobby is in state \<open>Ready\<close> if and only if both \<open>deposits.creator\<close> and
  \<open>deposits.opponent\<close> are true; a lobby that is not ready is waiting, the only other
  state. Every prefix of a run is a run, so this holds after each handler.
\<close>

theorem lobby_ready_iff_both_deposits:
  assumes "run evs init = Inr (s, out) \<or> run_server evs init = Inr (s, out)"
    and "lobbies s lobbyId = Some l"
  shows "(lobby_state l = Ready) = (creator (deposits l) \<and> opponent (deposits l)) \<and>
         (lobby_state l = LobbyWaiting) = (\<not> (creator (deposits l) \<and> opponent (deposits l)))"
proof -
  have "ready_inv (lobbies init)" by (simp add: ready_inv_def init_def)
  with assms(1) have "ready_inv (lobbies s)"
    using run_invariant [of "\<lambda>s. ready_inv (lobbies s)" init evs s out]
      run_server_invariant [of "\<lambda>s. ready_inv (lobbies s)" init evs s out]
      ready_inv_step ready_inv_step_server
    by blast
  with assms(2) have "(lobby_state l = Ready) = (creator (deposits l) \<and> opponent (deposits l))"
    by (simp add: ready_inv_def)
  then show ?thesis
    by (cases "lobby_state l") simp_all
qed

text \<open>Two players join and deposit: the lobby is ready; before the second deposit it waits.\<close>

theorem lobby_ready_iff_both_deposits_witness:
  "(\<exists>s out l.
      run [(0, JoinLobby ''sa'' ''L'' ''A'' Creator), (1, JoinLobby ''sb'' ''L'' ''B'' Opponent),
           (2, DepositMade ''sa'' ''L'' ''A''), (3, DepositMade ''sb'' ''L'' ''B'')] init = Inr (s, out) \<and>
      lobbies s ''L'' = Some l \<and> creator (deposits l) \<and> opponent (deposits l) \<and> lobby_state l = Ready)
   \<and> (\<exists>s out l.
      run_server [(0, JoinLobby ''sa'' ''L'' ''A'' Creator), (1, JoinLobby ''sb'' ''L'' ''B'' Opponent),
           (2, DepositMade ''sa'' ''L'' ''A'')] init = Inr (s, out) \<and>
      lobbies s ''L'' = Some l \<and> \<not> opponent (deposits l) \<and> lobby_state l \<noteq> Ready)"
proof -
  have "\<exists>s out l.
      run [(0, JoinLobby ''sa'' ''L'' ''A'' Creator), (1, JoinLobby ''sb'' ''L'' ''B'' Opponent),
           (2, DepositMade ''sa'' ''L'' ''A''), (3, DepositMade ''sb'' ''L'' ''B'')] init = Inr (s, out) \<and>
      lobbies s ''L'' = Some l \<and> creator (deposits l) \<and> opponent (deposits l)"
    by (simp add: init_def handler_defs)
  then obtain s out l where 1:
    "run [(0, JoinLobby ''sa'' ''L'' ''A'' Creator), (1, JoinLobby ''sb'' ''L'' ''B'' Opponent),
          (2, DepositMade ''sa'' ''L'' ''A''), (3, DepositMade ''sb'' ''L'' ''B'')] init = Inr (s, out)"
    "lobbies s ''L'' = Some l" "creator (deposits l)" "opponent (deposits l)"
    by blast
  from lobby_ready_iff_both_deposits [OF disjI1 [OF 1(1)] 1(2)] 1(3,4)
  have "lobby_state l = Ready" by simp
  with 1 have a: "\<exists>s out l.
      run [(0, JoinLobby ''sa'' ''L'' ''A'' Creator), (1, JoinLobby ''sb'' ''L'' ''B'' Opponent),
           (2, DepositMade ''sa'' ''L'' ''A''), (3, DepositMade ''sb'' ''L'' ''B'')] init = Inr (s, out) \<and>
      lobbies s ''L'' = Some l \<and> creator (deposits l) \<and> opponent (deposits l) \<and> lobby_state l = Ready"
    by blast
  have "\<exists>s out l.
      run_server [(0, JoinLobby ''sa'' ''L'' ''A'' Creator), (1, JoinLobby ''sb'' ''L'' ''B'' Opponent),
           (2, DepositMade ''sa'' ''L'' ''A'')] init = Inr (s, out) \<and>
      lobbies s ''L'' = Some l \<and> \<not> opponent (deposits l)"
    by (simp add: init_def handler_defs)
  then obtain s' out' l' where 2:
    "run_server [(0, JoinLobby ''sa'' ''L'' ''A'' Creator), (1, JoinLobby ''sb'' ''L'' ''B'' Opponent),
           (2, DepositMade ''sa'' ''L'' ''A'')] init = Inr (s', out')"
    "lobbies s' ''L'' = Some l'" "\<not> opponent (deposits l')"
    by blast
  from lobby_ready_iff_both_deposits [OF disjI2 [OF 2(1)] 2(2)] 2(3)
  have "lobby_state l' \<noteq> Ready" by simp
  with 2 have b: "\<exists>s out l.
      run_server [(0, JoinLobby ''sa'' ''L'' ''A'' Creator), (1, JoinLobby ''sb'' ''L'' ''B'' Opponent),
           (2, DepositMade ''sa'' ''L'' ''A'')] init = Inr (s, out) \<and>
      lobbies s ''L'' = Some l \<and> \<not> opponent (deposits l) \<and> lobby_state l \<noteq> Ready"
    by blast
  from a b show ?thesis by (rule conjI)
qed

subsection \<open>Deposit flags and the ready state only grow\<close>

text \<open>
  Claim C10. Along any run of either revision, from any server state, a lobby that exists
  keeps existing, a deposit flag that is true stays true, and a lobby that is \<open>Ready\<close>
  stays \<open>Ready\<close>. A \<open>join_lobby\<close> into an existing lobby overwrites the wallet's entry with
  \<open>deposited = False\<close> and leaves the flags and the lobby state as they are. So a lobby can
  be ready while a player's own \<open>deposited\<close> flag is false: \<open>A\<close> deposits as creator,
  joins again, and the lobby becomes ready on the opponent's deposit.
\<close>

theorem lobby_flags_monotone:
  "((run evs s = Inr (s', out) \<or> run_server evs s = Inr (s', out)) \<and> lobbies s lobbyId = Some l \<longrightarrow>
      (\<exists>l'. lobbies s' lobbyId = Some l' \<and>
         (creator (deposits l) \<longrightarrow> creator (deposits l')) \<and>
         (opponent (deposits l) \<longrightarrow> opponent (deposits l')) \<and>
         (lobby_state l = Ready \<longrightarrow> lobby_state l' = Ready)))
   \<and> (lobbies s lobbyId = Some l \<longrightarrow>
      (\<exists>l'. lobbies (fst (join_lobby sid lobbyId w r s)) lobbyId = Some l' \<and>
         map_of (lobby_players l') w = Some \<lparr>lobby_wallet = w, role = r, deposited = False\<rparr> \<and>
         deposits l' = deposits l \<and> lobby_state l' = lobby_state l))
   \<and> (\<exists>s out l p.
        run [(0, JoinLobby ''sa'' ''L'' ''A'' Creator), (1, DepositMade ''sa'' ''L'' ''A''),
             (2, JoinLobby ''sa'' ''L'' ''A'' Creator), (3, JoinLobby ''sb'' ''L'' ''B'' Opponent),
             (4, DepositMade ''sb'' ''L'' ''B'')] init = Inr (s, out) \<and>
        lobbies s ''L'' = Some l \<and> lobby_state l = Ready \<and> creator (deposits l) \<and>
        map_of (lobby_players l) ''A'' = Some p \<and> \<not> deposited p)"
proof (intro conjI)
  show "(run evs s = Inr (s', out) \<or> run_server evs s = Inr (s', out)) \<and> lobbies s lobbyId = Some l \<longrightarrow>
      (\<exists>l'. lobbies s' lobbyId = Some l' \<and>
         (creator (deposits l) \<longrightarrow> creator (deposits l')) \<and>
         (opponent (deposits l) \<longrightarrow> opponent (deposits l')) \<and>
         (lobby_state l = Ready \<longrightarrow> lobby_state l' = Ready))"
    using flags_kept_run [of evs s s' out] flags_kept_run_server [of evs s s' out]
    unfolding flags_kept_def by blast
next
  show "lobbies s lobbyId = Some l \<longrightarrow>
      (\<exists>l'. lobbies (fst (join_lobby sid lobbyId w r s)) lobbyId = Some l' \<and>
         map_of (lobby_players l') w = Some \<lparr>lobby_wallet = w, role = r, deposited = False\<rparr> \<and>
         deposits l' = deposits l \<and> lobby_state l' = lobby_state l)"
    by (simp add: lobbies_join_lobby update_conv')
next
  show "\<exists>s out l p.
        run [(0, JoinLobby ''sa'' ''L'' ''A'' Creator), (1, DepositMade ''sa'' ''L'' ''A''),
             (2, JoinLobby ''sa'' ''L'' ''A'' Creator), (3, JoinLobby ''sb'' ''L'' ''B'' Opponent),
             (4, DepositMade ''sb'' ''L'' ''B'')] init = Inr (s, out) \<and>
        lobbies s ''L'' = Some l \<and> lobby_state l = Ready \<and> creator (deposits l) \<and>
        map_of (lobby_players l) ''A'' = Some p \<and> \<not> deposited p"
    by (simp add: init_def handler_defs)
qed

text \<open>
  A creator who has deposited joins again: the flag stays, the player's entry is reset.
\<close>

theorem lobby_flags_monotone_witness:
  "\<exists>s out0 l s' out l'.
     run [(0, JoinLobby ''sa'' ''L'' ''A'' Creator), (1, DepositMade ''sa'' ''L'' ''A'')] init
       = Inr (s, out0) \<and>
     lobbies s ''L'' = Some l \<and> creator (deposits l) \<and>
     run [(5, JoinLobby ''sa'' ''L'' ''A'' Creator)] s = Inr (s', out) \<and>
     lobbies s' ''L'' = Some l' \<and> creator (deposits l') \<and>
     map_of (lobby_players l') ''A'' = Some \<lparr>lobby_wallet = ''A'', role = Creator, deposited = False\<rparr>"
proof -
  have "\<exists>s out0 l.
     run [(0, JoinLobby ''sa'' ''L'' ''A'' Creator), (1, DepositMade ''sa'' ''L'' ''A'')] init
       = Inr (s, out0) \<and> lobbies s ''L'' = Some l \<and> creator (deposits l)"
    by (simp add: init_def handler_defs)
  then obtain s out0 l where l:
    "run [(0, JoinLobby ''sa'' ''L'' ''A'' Creator), (1, DepositMade ''sa'' ''L'' ''A'')] init
       = Inr (s, out0)" "lobbies s ''L'' = Some l" "creator (deposits l)"
    by blast
  from l(2) have "js_get (lobbies s) ''L'' \<noteq> Inherited"
    by (simp add: js_get_def)
  then have "\<exists>s' out. run [(5, JoinLobby ''sa'' ''L'' ''A'' Creator)] s = Inr (s', out) \<and>
          s' = fst (join_lobby ''sa'' ''L'' ''A'' Creator s)"
    by (cases "join_lobby ''sa'' ''L'' ''A'' Creator s") (simp add: step_def)
  then obtain s' out where r: "run [(5, JoinLobby ''sa'' ''L'' ''A'' Creator)] s = Inr (s', out)"
    "s' = fst (join_lobby ''sa'' ''L'' ''A'' Creator s)" by blast
  from lobby_flags_monotone [of "[(5, JoinLobby ''sa'' ''L'' ''A'' Creator)]" s s' out "''L''" l
      "''sa''" "''A''" Creator] r l
  have "\<exists>l'. lobbies s' ''L'' = Some l' \<and> creator (deposits l') \<and>
         map_of (lobby_players l') ''A'' = Some \<lparr>lobby_wallet = ''A'', role = Creator, deposited = False\<rparr>"
    by auto
  with r(1) l show ?thesis
    by blast
qed

subsection \<open>The winner\<close>

text \<open>
  Claim C5. When the game timer of a match fires and the match has at least one player
  and pairwise distinct tap counts, the winner is the wallet of the one player whose taps
  exceed those of every other player, and the \<open>game_end\<close> broadcast carries that winner
  and a score list with one (wallet, taps) pair per player entry, in the order of the
  entries. Both revisions broadcast the same; only the later one stores the winner.
\<close>

theorem winner_is_max_taps:
  assumes "matches s matchId = Some m" and "players m \<noteq> []"
    and "distinct (map (\<lambda>(k, p). taps p) (players m))"
    and "i < length (timers s)" and "snd (timers s ! i) = GameTimer matchId"
  shows "\<exists>p. p \<in> snd ` set (players m) \<and>
           (\<forall>q \<in> snd ` set (players m). q \<noteq> p \<longrightarrow> taps q < taps p) \<and>
           step now (Fire i) s =
             Inr (s\<lparr>timers := remove_timer i (timers s),
                    matches := (matches s)(matchId \<mapsto> m\<lparr>state := Finished, winner := Some (wallet p)\<rparr>)\<rparr>,
                  [(matchId, GameEnd (map (\<lambda>(k, q). (wallet q, taps q)) (players m)) (wallet p))]) \<and>
           step_server now (Fire i) s =
             Inr (s\<lparr>timers := remove_timer i (timers s),
                    matches := (matches s)(matchId \<mapsto> m\<lparr>state := Finished\<rparr>)\<rparr>,
                  [(matchId, GameEnd (map (\<lambda>(k, q). (wallet q, taps q)) (players m)) (wallet p))])"
proof -
  from reduce_winner_max [OF assms(2)] obtain p where
    p: "p \<in> snd ` set (players m)" "\<forall>q \<in> snd ` set (players m). taps q \<le> taps p"
       "reduce_winner (scores (players m)) = Inr (wallet p)"
    by blast
  have "map (\<lambda>(k, p). taps p) (players m) = map taps (map snd (players m))"
    by (simp add: case_prod_unfold)
  with assms(3) have "distinct (map taps (map snd (players m)))" by simp
  then have "inj_on taps (set (map snd (players m)))"
    using distinct_map [of taps "map snd (players m)"] by blast
  then have inj: "inj_on taps (snd ` set (players m))"
    by (simp only: set_map)
  have strict: "\<forall>q \<in> snd ` set (players m). q \<noteq> p \<longrightarrow> taps q < taps p"
  proof (intro ballI impI)
    fix q assume q: "q \<in> snd ` set (players m)" "q \<noteq> p"
    with inj p(1) have "taps q \<noteq> taps p" by (auto dest: inj_onD)
    moreover from p(2) q(1) have "taps q \<le> taps p" by blast
    ultimately show "taps q < taps p" by simp
  qed
  have sc: "scores (players m) = map (\<lambda>(k, q). (wallet q, taps q)) (players m)"
    by (simp add: scores_def case_prod_unfold)
  have "step now (Fire i) s =
             Inr (s\<lparr>timers := remove_timer i (timers s),
                    matches := (matches s)(matchId \<mapsto> m\<lparr>state := Finished, winner := Some (wallet p)\<rparr>)\<rparr>,
                  [(matchId, GameEnd (map (\<lambda>(k, q). (wallet q, taps q)) (players m)) (wallet p))])"
    using assms(1,4,5) p(3) by (simp add: step_def callback_def Let_def sc [symmetric])
  moreover have "step_server now (Fire i) s =
             Inr (s\<lparr>timers := remove_timer i (timers s),
                    matches := (matches s)(matchId \<mapsto> m\<lparr>state := Finished\<rparr>)\<rparr>,
                  [(matchId, GameEnd (map (\<lambda>(k, q). (wallet q, taps q)) (players m)) (wallet p))])"
    using assms(1,4,5) p(3) by (simp add: step_server_def callback_server_def Let_def sc [symmetric])
  ultimately show ?thesis using p(1) strict by blast
qed

text \<open>Five taps against three: the player with five wins.\<close>

theorem winner_is_max_taps_witness:
  "(let m = (new_match ''M'' 30)\<lparr>players := [(''A'', \<lparr>wallet = ''A'', score = 0, taps = 5\<rparr>),
                                              (''B'', \<lparr>wallet = ''B'', score = 0, taps = 3\<rparr>)],
                                  state := Active\<rparr>;
        s = init\<lparr>matches := [''M'' \<mapsto> m], timers := [(30000, GameTimer ''M'')]\<rparr>
    in players m \<noteq> [] \<and> distinct (map (\<lambda>(k, p). taps p) (players m)) \<and>
       (\<exists>s'. step 33000 (Fire 0) s = Inr (s', [(''M'', GameEnd [(''A'', 5), (''B'', 3)] ''A'')]) \<and>
             map_option winner (matches s' ''M'') = Some (Some ''A'')) \<and>
       (\<exists>s'. step_server 33000 (Fire 0) s = Inr (s', [(''M'', GameEnd [(''A'', 5), (''B'', 3)] ''A'')])))"
proof -
  define m where "m = (new_match ''M'' 30)\<lparr>players := [(''A'', \<lparr>wallet = ''A'', score = 0, taps = 5\<rparr>),
                                              (''B'', \<lparr>wallet = ''B'', score = 0, taps = 3\<rparr>)],
                                  state := Active\<rparr>"
  define s where "s = init\<lparr>matches := [''M'' \<mapsto> m], timers := [(30000, GameTimer ''M'')]\<rparr>"
  have h: "matches s ''M'' = Some m" "players m \<noteq> []" "distinct (map (\<lambda>(k, p). taps p) (players m))"
    "0 < length (timers s)" "snd (timers s ! 0) = GameTimer ''M''"
    by (simp_all add: s_def m_def init_def new_match_def)
  from winner_is_max_taps [OF h, of 33000] obtain p where p:
    "p \<in> snd ` set (players m)" "\<forall>q \<in> snd ` set (players m). q \<noteq> p \<longrightarrow> taps q < taps p"
    "step 33000 (Fire 0) s =
       Inr (s\<lparr>timers := remove_timer 0 (timers s),
              matches := (matches s)(''M'' \<mapsto> m\<lparr>state := Finished, winner := Some (wallet p)\<rparr>)\<rparr>,
            [(''M'', GameEnd (map (\<lambda>(k, q). (wallet q, taps q)) (players m)) (wallet p))])"
    "step_server 33000 (Fire 0) s =
       Inr (s\<lparr>timers := remove_timer 0 (timers s),
              matches := (matches s)(''M'' \<mapsto> m\<lparr>state := Finished\<rparr>)\<rparr>,
            [(''M'', GameEnd (map (\<lambda>(k, q). (wallet q, taps q)) (players m)) (wallet p))])"
    by blast
  from p(1,2) have "wallet p = ''A''"
    by (auto simp: m_def new_match_def)
  with p(3,4) h(2,3) show ?thesis
    unfolding s_def [symmetric] m_def [symmetric] Let_def
    by (simp add: m_def new_match_def)
qed

subsection \<open>The order of the phases\<close>

text \<open>
  Claim C1 asks that the state of a match never moves to an earlier phase. Both revisions
  move it back.
  \<^item> In part_000 the ready branch of \<open>deposit_made\<close> assigns \<^verbatim>\<open>state = "waiting"\<close> to the
    match of the lobby whether or not that match has started (line 214). After both
    deposits and the settle timer the match is in \<open>Countdown\<close>; one more \<open>deposit_made\<close> of
    a member puts it back to \<open>Waiting\<close>. The other two places that start a match test
    \<^verbatim>\<open>state === "waiting"\<close> first (lines 218 and 257).
  \<^item> In server.ts \<open>join_match\<close> assigns \<^verbatim>\<open>state = "countdown"\<close> whenever the player count is
    exactly two (lines 108-109): when a player of an active match joins again, the match is
    back in \<open>Countdown\<close>.
\<close>

theorem deposit_made_resets_phase:
  "(\<exists>s1 out1 s2 out2 m1 m2.
      run [(0, JoinLobby ''sa'' ''L'' ''A'' Creator), (1, JoinLobby ''sb'' ''L'' ''B'' Opponent),
           (2, DepositMade ''sa'' ''L'' ''A''), (3, DepositMade ''sb'' ''L'' ''B''),
           (2003, Fire 0)] init = Inr (s1, out1) \<and>
      matches s1 ''L'' = Some m1 \<and> state m1 = Countdown \<and>
      step 2500 (DepositMade ''sa'' ''L'' ''A'') s1 = Inr (s2, out2) \<and>
      matches s2 ''L'' = Some m2 \<and> state m2 = Waiting \<and>
      phase_rank (state m2) < phase_rank (state m1))
   \<and> (\<exists>s1 out1 s2 out2 m1 m2.
      run_server [(0, JoinMatch ''sa'' ''M'' ''A''), (1, JoinMatch ''sb'' ''M'' ''B''),
                  (3001, Fire 0)] init = Inr (s1, out1) \<and>
      matches s1 ''M'' = Some m1 \<and> state m1 = Active \<and>
      step_server 4000 (JoinMatch ''sa'' ''M'' ''A'') s1 = Inr (s2, out2) \<and>
      matches s2 ''M'' = Some m2 \<and> state m2 = Countdown \<and>
      phase_rank (state m2) < phase_rank (state m1))"
  by (simp add: init_def handler_defs phase_rank_def)

subsection \<open>Entering the countdown\<close>

text \<open>
  In part_000 a step broadcasts \<open>countdown_start\<close> for a match only if the match was
  \<open>Waiting\<close> before the step, and a match that is neither waiting nor counting down is not
  in \<open>Countdown\<close> after the step: \<open>join_match\<close> and the settle timer both test the state.
\<close>

lemma countdown_start_only_from_waiting:
  assumes "step now e s = Inr (s', out)" and "(matchId, CountdownStart t d) \<in> set out"
  shows "\<exists>m. matches s matchId = Some m \<and> state m = Waiting"
proof (cases e)
  case (JoinMatch sid mid w)
  with assms show ?thesis
    by (auto simp: step_def join_match_def js_get_def startMatchCountdown_def socket_join_def Let_def
        new_match_def split: option.splits if_splits prod.splits)
next
  case (Fire i)
  with assms show ?thesis
    by (auto simp: step_def callback_def startMatchCountdown_def Let_def
        split: option.splits if_splits timer.splits sum.splits)
next
  case (DepositMade sid lid w)
  with assms show ?thesis
    by (auto simp: step_def deposit_made_def js_get_def Let_def split: option.splits if_splits)
next
  case (Tap sid mid w)
  with assms show ?thesis
    by (auto simp: step_def tap_def js_get_def Let_def split: option.splits if_splits)
qed (use assms in \<open>auto simp: step_def join_lobby_def disconnecting_def player_left_eq Let_def
       split: if_splits\<close>)

lemma countdown_entered_only_from_waiting:
  assumes "step now e s = Inr (s', out)" and "matches s matchId = Some m" and "state m \<noteq> Countdown"
    and "matches s' matchId = Some m'" and "state m' = Countdown"
  shows "state m = Waiting"
proof (cases e)
  case (JoinMatch sid mid w)
  with assms show ?thesis
    by (auto simp: step_def join_match_def js_get_def startMatchCountdown_def socket_join_def Let_def
        new_match_def split: option.splits if_splits prod.splits)
next
  case (Fire i)
  with assms show ?thesis
    by (auto simp: step_def callback_def startMatchCountdown_def Let_def
        split: option.splits if_splits timer.splits sum.splits)
next
  case (DepositMade sid lid w)
  with assms show ?thesis
    by (auto simp: step_def deposit_made_def js_get_def Let_def split: option.splits if_splits)
next
  case (Tap sid mid w)
  with assms show ?thesis
    by (auto simp: step_def tap_def js_get_def Let_def split: option.splits if_splits)
qed (use assms in \<open>auto simp: step_def join_lobby_def socket_join_def disconnecting_def Let_def
       split: if_splits\<close>)

text \<open>
  Claim C4 asks that no event starts the countdown of a match that is not waiting. The
  \<open>join_match\<close> of server.ts has no such test (line 108 compares the player count with 2
  and nothing else): a finished match with two players is put back into \<open>Countdown\<close> when
  one of them joins again, a new \<open>countdown_start\<close> is broadcast and a new timer is armed.
\<close>

theorem join_match_server_restarts_countdown:
  "\<exists>s1 out1 s2 out2 m1 m2.
      run_server [(0, JoinMatch ''sa'' ''M'' ''A''), (1, JoinMatch ''sb'' ''M'' ''B''),
                  (3001, Fire 0), (33001, Fire 0)] init = Inr (s1, out1) \<and>
      matches s1 ''M'' = Some m1 \<and> state m1 = Finished \<and> length (players m1) = 2 \<and>
      join_match_server 40000 ''sa'' ''M'' ''A'' s1 = (s2, out2) \<and>
      matches s2 ''M'' = Some m2 \<and> state m2 = Countdown \<and>
      out2 = [(''M'', PlayerJoined 2), (''M'', CountdownStart 40000 3000)] \<and>
      timers s2 = [(3000, CountdownTimer ''M'')]"
  by (simp add: init_def handler_defs)

subsection \<open>Storing the winner\<close>

text \<open>
  Claim C6 asks that the winner is stored on the match once, when it finishes, and never
  changes afterwards.
  \<^item> In part_000 a \<open>deposit_made\<close> after the end of the game resets the roster and the state
    of the match (the reset of Claim C1) and arms the settle timer again; the match runs a
    second time and the stored winner changes from \<open>A\<close> to \<open>B\<close>.
  \<^item> In server.ts the winner is broadcast and never stored: the field is still unset on a
    finished match.
\<close>

theorem winner_reassigned:
  "(\<exists>s1 out1 s2 out2 m1 m2.
      run [(0, JoinLobby ''sa'' ''L'' ''A'' Creator), (1, JoinLobby ''sb'' ''L'' ''B'' Opponent),
           (2, DepositMade ''sa'' ''L'' ''A''), (3, DepositMade ''sb'' ''L'' ''B''),
           (2003, Fire 0), (5003, Fire 0), (6000, Tap ''sa'' ''L'' ''A''), (35003, Fire 0)] init
        = Inr (s1, out1) \<and>
      matches s1 ''L'' = Some m1 \<and> state m1 = Finished \<and> winner m1 = Some ''A'' \<and>
      run [(40000, DepositMade ''sa'' ''L'' ''A''), (42000, Fire 0), (45000, Fire 0),
           (46000, Tap ''sb'' ''L'' ''B''), (75000, Fire 0)] s1 = Inr (s2, out2) \<and>
      matches s2 ''L'' = Some m2 \<and> state m2 = Finished \<and> winner m2 = Some ''B'')
   \<and> (\<exists>s out m.
      run_server [(0, JoinMatch ''sa'' ''M'' ''A''), (1, JoinMatch ''sb'' ''M'' ''B''),
                  (3001, Fire 0), (4000, Tap ''sa'' ''M'' ''A''), (33001, Fire 0)] init = Inr (s, out) \<and>
      matches s ''M'' = Some m \<and> state m = Finished \<and> winner m = None \<and>
      (''M'', GameEnd [(''A'', 1), (''B'', 0)] ''A'') \<in> set out)"
  by (simp add: init_def handler_defs)

subsection \<open>Joining a match twice\<close>

text \<open>
  In part_000 \<open>join_match\<close> leaves the roster of a match as it is when the wallet is already
  a player, and any number of joins of one wallet to a match that is absent, or waiting
  with that wallet alone, leaves the match waiting with one player and arms no timer
  (neither the match id nor the wallet naming an inherited property).
\<close>

lemma join_match_known_wallet:
  assumes "matches s matchId = Some m" and "map_of (players m) w = Some p"
  shows "\<exists>s' out m'. join_match now sid matchId w s = (s', out) \<and>
           matches s' matchId = Some m' \<and> players m' = players m"
  using assms
  by (auto simp: join_match_def js_get_def startMatchCountdown_def socket_join_def Let_def)


lemma join_match_alone:
  assumes "matches s matchId = None \<or>
           (\<exists>m. matches s matchId = Some m \<and> state m = Waiting \<and> map fst (players m) = [w])"
    and "\<not> inherited w"
  shows "\<exists>s' m'. join_match now sid matchId w s = (s', [(matchId, PlayerJoined 1)]) \<and>
           matches s' matchId = Some m' \<and> state m' = Waiting \<and> map fst (players m') = [w] \<and>
           timers s' = timers s"
  using assms(1)
proof
  assume "matches s matchId = None"
  with assms(2) show ?thesis
    by (simp add: join_match_def js_get_def socket_join_def Let_def new_match_def)
next
  assume "\<exists>m. matches s matchId = Some m \<and> state m = Waiting \<and> map fst (players m) = [w]"
  then obtain m where m: "matches s matchId = Some m" "state m = Waiting" "map fst (players m) = [w]"
    by auto
  from m(3) obtain p where p: "players m = [(w, p)]"
    by (cases "players m") auto
  with m show ?thesis
    by (simp add: join_match_def js_get_def socket_join_def Let_def)
qed

lemma join_match_alone_run:
  assumes "list_all (\<lambda>(now, e). \<exists>sid. e = JoinMatch sid matchId w) evs" and "evs \<noteq> []"
    and "matches s matchId = None \<or>
           (\<exists>m. matches s matchId = Some m \<and> state m = Waiting \<and> map fst (players m) = [w])"
    and "\<not> inherited matchId" and "\<not> inherited w"
  shows "\<exists>s' out m'. run evs s = Inr (s', out) \<and>
           matches s' matchId = Some m' \<and> state m' = Waiting \<and> map fst (players m') = [w] \<and>
           timers s' = timers s \<and> set out = {(matchId, PlayerJoined 1)}"
  using assms
proof (induction evs arbitrary: s)
  case Nil
  then show ?case by simp
next
  case (Cons a evs)
  from Cons.prems(1) obtain now sid where a: "a = (now, JoinMatch sid matchId w)"
    by (cases a) auto
  from join_match_alone [OF Cons.prems(3) Cons.prems(5), of now sid] obtain s1 m1 where
    1: "join_match now sid matchId w s = (s1, [(matchId, PlayerJoined 1)])"
       "matches s1 matchId = Some m1" "state m1 = Waiting" "map fst (players m1) = [w]"
       "timers s1 = timers s"
    by auto
  from Cons.prems(4) have ni: "js_get (matches s) matchId \<noteq> Inherited"
    by (simp add: js_get_def split: option.splits)
  show ?case
  proof (cases "evs = []")
    case True
    with 1 a ni show ?thesis by (simp add: step_def)
  next
    case False
    from Cons.prems(1) have "list_all (\<lambda>(now, e). \<exists>sid. e = JoinMatch sid matchId w) evs"
      by simp
    from Cons.IH [OF this False _ Cons.prems(4) Cons.prems(5), of s1] 1 obtain s' out m' where
      2: "run evs s1 = Inr (s', out)" "matches s' matchId = Some m'" "state m' = Waiting"
         "map fst (players m') = [w]" "timers s' = timers s1" "set out = {(matchId, PlayerJoined 1)}"
      by auto
    with 1 a ni show ?thesis by (simp add: step_def)
  qed
qed

text \<open>
  Claim C7 asks that a \<open>join_match\<close> of a wallet that is already a player leaves the
  player's entry alone. The \<open>join_match\<close> of server.ts assigns a fresh entry without
  looking (line 98): in an active match of three players, a player with one tap who joins
  again has no taps.
\<close>

theorem join_match_server_resets_taps:
  "\<exists>s1 out1 s2 out2 m1 m2.
      run_server [(0, JoinMatch ''sa'' ''M'' ''A''), (1, JoinMatch ''sb'' ''M'' ''B''),
                  (2, JoinMatch ''sc'' ''M'' ''C''), (3001, Fire 0),
                  (4000, Tap ''sa'' ''M'' ''A'')] init = Inr (s1, out1) \<and>
      matches s1 ''M'' = Some m1 \<and> state m1 = Active \<and>
      map_of (players m1) ''A'' = Some \<lparr>wallet = ''A'', score = 0, taps = 1\<rparr> \<and>
      join_match_server 5000 ''sa'' ''M'' ''A'' s1 = (s2, out2) \<and>
      matches s2 ''M'' = Some m2 \<and> state m2 = Active \<and>
      map_of (players m2) ''A'' = Some \<lparr>wallet = ''A'', score = 0, taps = 0\<rparr>"
  by (simp add: init_def handler_defs)

end
